theory Spec2Isabelle
  imports Complex_Main "HOL-Library.Word"
begin

section \<open>Heading identifiers: \<open>slugify\<close>\<close>

text \<open>
  The MDX component map gives every \<open>h1\<close>, \<open>h2\<close> and \<open>h3\<close> an \<open>id\<close> computed by
  \<^verbatim>\<open>
  function slugify(text: string): string {
    return text
      .toLowerCase()
      .replace(/[^a-z0-9]+/g, '-')
      .replace(/(^-|-$)/g, '')
  }
  \<close>
  A JavaScript string is a sequence of 16-bit code units, so it is modelled as a list of
  16-bit words. The two regular expressions only ever look at the code units of \<open>a\<close> to
  \<open>z\<close>, \<open>0\<close> to \<open>9\<close> and \<open>-\<close>.
\<close>

type_synonym code_unit = "16 word"
type_synonym js_string = "code_unit list"

definition hyphen :: code_unit where
  "hyphen = 0x2D"

definition lower_or_digit :: "code_unit \<Rightarrow> bool" where
  \<comment> \<open>the character class \<open>[a-z0-9]\<close>\<close>
  "lower_or_digit c \<longleftrightarrow> (0x61 \<le> c \<and> c \<le> 0x7A) \<or> (0x30 \<le> c \<and> c \<le> 0x39)"

text \<open>
  \<open>.replace(/[^a-z0-9]+/g, '-')\<close>: scanning from the left, a code unit of the class is
  copied; at any other code unit the greedy \<open>+\<close> consumes the whole run of code units
  outside the class and one hyphen is written for it.
\<close>

function replace_runs :: "js_string \<Rightarrow> js_string" where
  "replace_runs [] = []"
| "replace_runs (c # cs) =
     (if lower_or_digit c then c # replace_runs cs
      else hyphen # replace_runs (dropWhile (\<lambda>x. \<not> lower_or_digit x) cs))"
  by pat_completeness auto
termination
  by (relation "measure length") (auto simp: length_dropWhile_le less_Suc_eq_le)

text \<open>
  \<open>.replace(/(^-|-$)/g, '')\<close>: scanning from the left, a hyphen is removed when it
  stands at the start of the input (\<open>^-\<close>) or is its last code unit (\<open>-$\<close>). The flag
  says whether the scan is still at position 0.
\<close>

fun strip_from :: "bool \<Rightarrow> js_string \<Rightarrow> js_string" where
  "strip_from at_start [] = []"
| "strip_from at_start (c # cs) =
     (if c = hyphen \<and> (at_start \<or> cs = []) then strip_from False cs
      else c # strip_from False cs)"

definition strip_edges :: "js_string \<Rightarrow> js_string" where
  "strip_edges s = strip_from True s"

text \<open>
  \<open>toLowerCase\<close> follows the Unicode case tables of the platform, which the repository
  does not contain, so it is a parameter of the model. \<open>ascii_toLowerCase\<close> is its
  restriction to inputs made of ASCII code units.
\<close>

definition slugify :: "(js_string \<Rightarrow> js_string) \<Rightarrow> js_string \<Rightarrow> js_string" where
  "slugify toLowerCase text_in = strip_edges (replace_runs (toLowerCase text_in))"

definition ascii_toLowerCase :: "js_string \<Rightarrow> js_string" where
  "ascii_toLowerCase s = map (\<lambda>c. if 0x41 \<le> c \<and> c \<le> 0x5A then c + 0x20 else c) s"

text \<open>The shape of a slug: the class and hyphens only, never two hyphens in a row,
  no hyphen at either end.\<close>

definition slug_unit :: "code_unit \<Rightarrow> bool" where
  "slug_unit c \<longleftrightarrow> lower_or_digit c \<or> c = hyphen"

fun single_hyphens :: "js_string \<Rightarrow> bool" where
  "single_hyphens (c # d # cs) \<longleftrightarrow> \<not> (c = hyphen \<and> d = hyphen) \<and> single_hyphens (d # cs)"
| "single_hyphens _ \<longleftrightarrow> True"

definition is_slug :: "js_string \<Rightarrow> bool" where
  "is_slug s \<longleftrightarrow>
     list_all slug_unit s \<and> single_hyphens s \<and>
     (case s of [] \<Rightarrow> True | c # cs \<Rightarrow> c \<noteq> hyphen \<and> last s \<noteq> hyphen)"

text \<open>
  The component map applies \<open>slugify\<close> to a heading whose children are one string and
  gives every other heading the empty \<open>id\<close>:
  \<^verbatim>\<open>const id = typeof children === 'string' ? slugify(children) : ''\<close>
\<close>

datatype children = StringChild js_string | OtherChildren

definition heading_id :: "(js_string \<Rightarrow> js_string) \<Rightarrow> children \<Rightarrow> js_string" where
  "heading_id toLowerCase ch =
     (case ch of StringChild s \<Rightarrow> slugify toLowerCase s | OtherChildren \<Rightarrow> [])"

section \<open>The document and the platform\<close>

text \<open>
  The table of contents reads the rendered page through \<open>document.querySelectorAll\<close>
  and \<open>document.getElementById\<close>. A document is the list of its elements in document
  (tree) order. Of an element the component reads \<open>tagName\<close> (upper case in an HTML
  document), \<open>id\<close> (the reflected attribute, the empty string when the attribute is
  absent) and \<open>textContent\<close> (typed \<open>string | null\<close>); \<open>node\<close> is the identity of the
  DOM object. Tag names, identifiers and labels are only compared and copied here, so
  they are plain strings.
\<close>

record element =
  node :: nat
  tagName :: string
  elem_id :: string
  textContent :: "string option"

definition matches_h2_h3 :: "element \<Rightarrow> bool" where
  \<comment> \<open>the selector \<open>'h2, h3'\<close>\<close>
  "matches_h2_h3 e \<longleftrightarrow> tagName e = ''H2'' \<or> tagName e = ''H3''"

definition querySelectorAll_h2_h3 :: "element list \<Rightarrow> element list" where
  "querySelectorAll_h2_h3 doc = filter matches_h2_h3 doc"

definition is_heading :: "element \<Rightarrow> bool" where
  \<comment> \<open>a heading element of any of the six HTML levels\<close>
  "is_heading e \<longleftrightarrow> tagName e \<in> {''H1'', ''H2'', ''H3'', ''H4'', ''H5'', ''H6''}"

definition getElementById :: "element list \<Rightarrow> string \<Rightarrow> element option" where
  \<comment> \<open>the first element in tree order whose ID is the argument; an empty \<open>id\<close>
      attribute is no ID, so the empty string finds nothing\<close>
  "getElementById doc i = (if i = [] then None else find (\<lambda>e. elem_id e = i) doc)"

definition id_present :: "element list \<Rightarrow> string \<Rightarrow> bool" where
  "id_present doc i \<longleftrightarrow> i \<noteq> [] \<and> list_ex (\<lambda>e. elem_id e = i) doc"

subsection \<open>Numbers, \<open>charAt\<close> and \<open>parseInt\<close>\<close>

text \<open>
  A level is a JavaScript number: \<open>parseInt\<close> returns an integer or \<open>NaN\<close>, and the
  indentation multiplies by \<open>0.75\<close>. The values that occur (a one-digit integer minus
  two, times three quarters) are exact in binary floating point, so a number is a
  rational or \<open>NaN\<close>. Arithmetic and comparison with \<open>NaN\<close> give \<open>NaN\<close> and false.
  \<open>parseInt\<close> below yields the mathematical value of the digits it reads, which a
  double holds exactly up to fifteen decimal digits; its argument here is the result of
  \<open>charAt\<close>, at most one character.
\<close>

datatype js_number = NaN | Num rat

fun js_minus :: "js_number \<Rightarrow> js_number \<Rightarrow> js_number" where
  "js_minus (Num a) (Num b) = Num (a - b)"
| "js_minus _ _ = NaN"

fun js_times :: "js_number \<Rightarrow> js_number \<Rightarrow> js_number" where
  "js_times (Num a) (Num b) = Num (a * b)"
| "js_times _ _ = NaN"

fun js_less :: "js_number \<Rightarrow> js_number \<Rightarrow> bool" where
  "js_less (Num a) (Num b) \<longleftrightarrow> a < b"
| "js_less _ _ \<longleftrightarrow> False"

definition charAt :: "string \<Rightarrow> nat \<Rightarrow> string" where
  \<comment> \<open>the one-character string at the index, the empty string out of range\<close>
  "charAt s i = (if i < length s then [s ! i] else [])"

definition is_white :: "char \<Rightarrow> bool" where
  "is_white c \<longleftrightarrow> c \<in> {CHR 0x09, CHR 0x0A, CHR 0x0B, CHR 0x0C, CHR 0x0D, CHR 0x20, CHR 0xA0}"

definition digit_of :: "char \<Rightarrow> nat option" where
  "digit_of c =
     (let n = (of_char c :: nat)
      in if 48 \<le> n \<and> n \<le> 57 then Some (n - 48)
         else if 97 \<le> n \<and> n \<le> 122 then Some (n - 87)
         else if 65 \<le> n \<and> n \<le> 90 then Some (n - 55)
         else None)"

definition radix_digit :: "nat \<Rightarrow> char \<Rightarrow> nat option" where
  "radix_digit r c = (case digit_of c of None \<Rightarrow> None | Some d \<Rightarrow> if d < r then Some d else None)"

definition digits_value :: "nat \<Rightarrow> string \<Rightarrow> nat" where
  "digits_value r ds =
     foldl (\<lambda>acc c. acc * r + (case radix_digit r c of None \<Rightarrow> 0 | Some d \<Rightarrow> d)) 0 ds"

definition parseInt :: "string \<Rightarrow> js_number" where
  \<comment> \<open>\<open>parseInt\<close> with no radix argument: leading white space, an optional sign, an
      optional \<open>0x\<close> prefix, then the longest run of digits; \<open>NaN\<close> when that run is
      empty\<close>
  "parseInt s =
     (let s1 = dropWhile is_white s;
          negative = (s1 \<noteq> [] \<and> hd s1 = CHR ''-'');
          s2 = (if s1 \<noteq> [] \<and> (hd s1 = CHR ''-'' \<or> hd s1 = CHR ''+'') then tl s1 else s1);
          hex = (take 2 s2 = ''0x'' \<or> take 2 s2 = ''0X'');
          r = (if hex then 16 else 10);
          s3 = (if hex then drop 2 s2 else s2);
          ds = takeWhile (\<lambda>c. radix_digit r c \<noteq> None) s3
      in if ds = [] then NaN
         else Num (of_int (if negative then - int (digits_value r ds) else int (digits_value r ds))))"

subsection \<open>The visibility observer\<close>

text \<open>
  An \<open>IntersectionObserver\<close> holds its observation targets. \<open>observe\<close> adds a
  target unless it is one already, \<open>disconnect\<close> drops them all. The browser reports
  visibility changes of the current targets only (\<open>deliver\<close> below).
\<close>

record observer =
  rootMargin :: string
  targets :: "element list"

record entry =
  isIntersecting :: bool
  target :: element

definition observe :: "observer \<Rightarrow> element \<Rightarrow> observer" where
  "observe ob e = (if e \<in> set (targets ob) then ob else ob\<lparr>targets := targets ob @ [e]\<rparr>)"

definition disconnect :: "observer \<Rightarrow> observer" where
  "disconnect ob = ob\<lparr>targets := []\<rparr>"

section \<open>The table of contents component\<close>

text \<open>
  \<^verbatim>\<open>
  interface TocItem { id: string; text: string; level: number }

  export function TableOfContents() {
    const [headings, setHeadings] = useState<TocItem[]>([])
    const [activeId, setActiveId] = useState<string>('')
    useEffect(() => {
      const elements = Array.from(document.querySelectorAll('h2, h3'))
      const items: TocItem[] = elements.map((element) => ({
        id: element.id,
        text: element.textContent || '',
        level: parseInt(element.tagName.charAt(1)),
      }))
      setHeadings(items)
      const observer = new IntersectionObserver(
        (entries) => {
          entries.forEach((entry) => {
            if (entry.isIntersecting) { setActiveId(entry.target.id) }
          })
        },
        { rootMargin: '-100px 0px -80% 0px' }
      )
      elements.forEach((element) => observer.observe(element))
      return () => observer.disconnect()
    }, [])
    if (headings.length === 0) return null
    return ( ... headings.map((heading) => <li ...> ... </li>) ... )
  }
  \<close>
\<close>

text \<open>
  The fields \<open>id\<close> and \<open>text\<close> of \<open>TocItem\<close> are \<open>item_id\<close> and \<open>item_text\<close> here, and
  the \<open>id\<close> of an element is \<open>elem_id\<close>: \<open>id\<close> is the identity function of HOL and
  \<open>text\<close> a keyword.
\<close>

record TocItem =
  item_id :: string
  item_text :: string
  level :: js_number

record TrackerState =
  headings :: "TocItem list"
  activeId :: string

text \<open>
  What the component does to its surroundings is recorded in order: the calls of the
  two state setters, and the two calls of the click handler.
\<close>

datatype effect =
    SetHeadings "TocItem list"
  | SetActiveId string
  | PreventDefault
  | ScrollIntoView element string string

datatype js_error = TypeError

text \<open>
  A page: its document, the state of the mounted component (\<open>None\<close> when it is not
  mounted), the observer made by the effect of the current mount, and the record of
  effects.
\<close>

record page =
  document :: "element list"
  component :: "TrackerState option"
  the_observer :: "observer option"
  effects :: "effect list"

definition initial_page :: "element list \<Rightarrow> page" where
  "initial_page doc = \<lparr>document = doc, component = None, the_observer = None, effects = []\<rparr>"

definition setHeadings :: "TocItem list \<Rightarrow> page \<Rightarrow> page" where
  "setHeadings items p =
     p\<lparr>component := map_option (\<lambda>st. st\<lparr>headings := items\<rparr>) (component p),
       effects := effects p @ [SetHeadings items]\<rparr>"

definition setActiveId :: "string \<Rightarrow> page \<Rightarrow> page" where
  "setActiveId v p =
     p\<lparr>component := map_option (\<lambda>st. st\<lparr>activeId := v\<rparr>) (component p),
       effects := effects p @ [SetActiveId v]\<rparr>"

definition or_empty :: "string option \<Rightarrow> string" where
  \<comment> \<open>\<open>element.textContent || ''\<close>: \<open>null\<close> and the empty string are falsy\<close>
  "or_empty t = (case t of None \<Rightarrow> [] | Some x \<Rightarrow> if x = [] then [] else x)"

definition toc_item :: "element \<Rightarrow> TocItem" where
  "toc_item e =
     \<lparr>item_id = elem_id e,
      item_text = or_empty (textContent e),
      level = parseInt (charAt (tagName e) 1)\<rparr>"

text \<open>The callback given to the observer: \<open>entries.forEach\<close>, from the left.\<close>

fun callback :: "entry list \<Rightarrow> page \<Rightarrow> page" where
  "callback [] p = p"
| "callback (e # es) p =
     callback es (if isIntersecting e then setActiveId (elem_id (target e)) p else p)"

definition mount_effect :: "page \<Rightarrow> page" where
  \<comment> \<open>the body of \<open>useEffect\<close>\<close>
  "mount_effect p =
     (let elements = querySelectorAll_h2_h3 (document p);
          items = map toc_item elements;
          p1 = setHeadings items p;
          ob = foldl observe \<lparr>rootMargin = ''-100px 0px -80% 0px'', targets = []\<rparr> elements
      in p1\<lparr>the_observer := Some ob\<rparr>)"

definition cleanup :: "page \<Rightarrow> page" where
  \<comment> \<open>the function \<open>useEffect\<close> returns: \<open>() => observer.disconnect()\<close>\<close>
  "cleanup p = p\<lparr>the_observer := map_option disconnect (the_observer p)\<rparr>"

definition mount :: "page \<Rightarrow> page" where
  \<comment> \<open>the two \<open>useState\<close> initial values, then the effect\<close>
  "mount p = mount_effect (p\<lparr>component := Some \<lparr>headings = [], activeId = []\<rparr>\<rparr>)"

definition unmount :: "page \<Rightarrow> page" where
  \<comment> \<open>the cleanup runs, then the state is discarded\<close>
  "unmount p = (cleanup p)\<lparr>component := None\<rparr>"

definition deliver :: "entry list \<Rightarrow> page \<Rightarrow> page" where
  \<comment> \<open>the browser: the callback gets the entries of current targets, and is not
      called when there are none\<close>
  "deliver es p =
     (case the_observer p of
        None \<Rightarrow> p
      | Some ob \<Rightarrow>
          (let es' = filter (\<lambda>e. target e \<in> set (targets ob)) es
           in if es' = [] then p else callback es' p))"

subsection \<open>Rendering\<close>

record li =
  key :: string
  paddingLeft :: js_number
  href :: string
  className :: string
  label :: string

definition base_class :: string where
  "base_class = ''block py-1 transition-colors hover:text-gray-900 dark:hover:text-white ''"

definition active_class :: string where
  "active_class = ''text-blue-600 dark:text-blue-400 font-medium''"

definition inactive_class :: string where
  "inactive_class = ''text-gray-600 dark:text-gray-400''"

definition render_item :: "string \<Rightarrow> TocItem \<Rightarrow> li" where
  \<comment> \<open>\<open>paddingLeft\<close> is the number in front of \<open>rem\<close>: \<open>(heading.level - 2) * 0.75\<close>\<close>
  "render_item active heading =
     \<lparr>key = item_id heading,
      paddingLeft = js_times (js_minus (level heading) (Num 2)) (Num (3 / 4)),
      href = CHR ''#'' # item_id heading,
      className = base_class @ (if active = item_id heading then active_class else inactive_class),
      label = item_text heading\<rparr>"

definition render :: "TrackerState \<Rightarrow> li list option" where
  \<comment> \<open>\<open>None\<close> is the \<open>null\<close> of \<open>if (headings.length === 0) return null\<close>; otherwise
      the items of the list inside the \<open>nav\<close>\<close>
  "render st =
     (if length (headings st) = 0 then None
      else Some (map (render_item (activeId st)) (headings st)))"

definition view :: "page \<Rightarrow> li list option" where
  \<comment> \<open>what is on the page: nothing while the component is not mounted\<close>
  "view p = (case component p of None \<Rightarrow> None | Some st \<Rightarrow> render st)"

subsection \<open>Activating an entry\<close>

definition onClick :: "TocItem \<Rightarrow> page \<Rightarrow> js_error + page" where
  \<comment> \<open>\<open>e.preventDefault()\<close>, then
      \<open>document.getElementById(heading.id)?.scrollIntoView({behavior: 'smooth', block: 'start'})\<close>;
      with \<open>?.\<close> a \<open>null\<close> result ends the expression where a plain call would raise
      \<open>TypeError\<close>\<close>
  "onClick heading p =
     (let p1 = p\<lparr>effects := effects p @ [PreventDefault]\<rparr>
      in case getElementById (document p1) (item_id heading) of
           None \<Rightarrow> Inr p1
         | Some e \<Rightarrow> Inr (p1\<lparr>effects := effects p1 @ [ScrollIntoView e ''smooth'' ''start'']\<rparr>))"

subsection \<open>The life of a page\<close>

text \<open>
  The events that reach the component: React mounts and unmounts it, the browser
  reports visibility, the reader activates a rendered entry, and the document may change
  underneath. An exception of the click handler would leave the page as it was.
\<close>

datatype event =
    Mount
  | Unmount
  | Report "entry list"
  | Activate TocItem
  | Mutate "element list"

fun step :: "page \<Rightarrow> event \<Rightarrow> page" where
  "step p Mount = (case component p of None \<Rightarrow> mount p | Some st \<Rightarrow> p)"
| "step p Unmount = (case component p of None \<Rightarrow> p | Some st \<Rightarrow> unmount p)"
| "step p (Report es) = deliver es p"
| "step p (Activate h) =
     (case component p of
        None \<Rightarrow> p
      | Some st \<Rightarrow>
          if h \<in> set (headings st)
          then (case onClick h p of Inl err \<Rightarrow> p | Inr p' \<Rightarrow> p')
          else p)"
| "step p (Mutate doc) = p\<lparr>document := doc\<rparr>"

definition run :: "page \<Rightarrow> event list \<Rightarrow> page" where
  "run p evs = foldl step p evs"

definition released :: "page \<Rightarrow> bool" where
  \<comment> \<open>no element is observed on behalf of the component\<close>
  "released p \<longleftrightarrow> (case the_observer p of None \<Rightarrow> True | Some ob \<Rightarrow> targets ob = [])"

fun is_Mount :: "event \<Rightarrow> bool" where
  "is_Mount Mount \<longleftrightarrow> True"
| "is_Mount _ \<longleftrightarrow> False"

fun is_Mutate :: "event \<Rightarrow> bool" where
  "is_Mutate (Mutate doc) \<longleftrightarrow> True"
| "is_Mutate _ \<longleftrightarrow> False"

fun is_SetHeadings :: "effect \<Rightarrow> bool" where
  "is_SetHeadings (SetHeadings items) \<longleftrightarrow> True"
| "is_SetHeadings _ \<longleftrightarrow> False"


subsection \<open>A small page\<close>

text \<open>
  Two sections with identifiers and a paragraph between them, and a heading whose
  children were not a single string, so that it got the empty identifier.
\<close>

definition section_2 :: element where
  "section_2 = \<lparr>node = 1, tagName = ''H2'', elem_id = ''section-2'', textContent = Some ''Setup''\<rparr>"

definition prose :: element where
  "prose = \<lparr>node = 2, tagName = ''P'', elem_id = [], textContent = Some ''Some prose.''\<rparr>"

definition section_3 :: element where
  "section_3 = \<lparr>node = 3, tagName = ''H3'', elem_id = ''section-3'', textContent = Some ''Details''\<rparr>"

definition anonymous_heading :: element where
  "anonymous_heading = \<lparr>node = 4, tagName = ''H2'', elem_id = [], textContent = Some ''Intro''\<rparr>"

definition example_doc :: "element list" where
  "example_doc = [section_2, prose, section_3]"

definition visible :: "element \<Rightarrow> entry" where
  "visible e = \<lparr>isIntersecting = True, target = e\<rparr>"

definition hidden :: "element \<Rightarrow> entry" where
  "hidden e = \<lparr>isIntersecting = False, target = e\<rparr>"

section \<open>Slugs\<close>

lemma hyphen_not_class: "\<not> lower_or_digit hyphen"
  by (simp add: lower_or_digit_def hyphen_def)

lemma class_not_hyphen: "lower_or_digit c \<Longrightarrow> c \<noteq> hyphen"
  using hyphen_not_class by auto

lemma replace_runs_units: "list_all slug_unit (replace_runs s)"
  by (induction s rule: replace_runs.induct) (auto simp: slug_unit_def)

lemma single_hyphens_Cons: "c \<noteq> hyphen \<Longrightarrow> single_hyphens (c # t) = single_hyphens t"
  by (cases t) auto

lemma single_hyphens_hyphen_Cons:
  "single_hyphens (hyphen # t) \<longleftrightarrow> (t = [] \<or> hd t \<noteq> hyphen) \<and> single_hyphens t"
  by (cases t) auto

lemma replace_runs_starts:
  "t = [] \<or> lower_or_digit (hd t) \<Longrightarrow> replace_runs t = [] \<or> hd (replace_runs t) \<noteq> hyphen"
  by (cases t) (auto simp: class_not_hyphen)

lemma replace_runs_single: "single_hyphens (replace_runs s)"
proof (induction s rule: replace_runs.induct)
  case 1
  show ?case by simp
next
  case (2 c cs)
  show ?case
  proof (cases "lower_or_digit c")
    case True
    with 2 show ?thesis by (simp add: single_hyphens_Cons class_not_hyphen)
  next
    case False
    let ?d = "dropWhile (\<lambda>x. \<not> lower_or_digit x) cs"
    have ih: "single_hyphens (replace_runs ?d)" using 2 False by simp
    have "?d = [] \<or> lower_or_digit (hd ?d)"
      using hd_dropWhile [of "\<lambda>x. \<not> lower_or_digit x" cs] by auto
    then have "replace_runs ?d = [] \<or> hd (replace_runs ?d) \<noteq> hyphen"
      by (rule replace_runs_starts)
    with ih False show ?thesis by (simp add: single_hyphens_hyphen_Cons)
  qed
qed

lemma strip_from_False:
  "strip_from False s = (if s \<noteq> [] \<and> last s = hyphen then butlast s else s)"
  by (induction s) auto

lemma strip_edges_Cons:
  "strip_edges (c # cs) = (if c = hyphen then strip_from False cs else c # strip_from False cs)"
  by (auto simp: strip_edges_def)

lemma single_hyphens_butlast: "single_hyphens s \<Longrightarrow> single_hyphens (butlast s)"
  by (induction s rule: single_hyphens.induct) auto

lemma single_hyphens_last2:
  "single_hyphens s \<Longrightarrow> butlast s \<noteq> [] \<Longrightarrow> last s = hyphen \<Longrightarrow> last (butlast s) \<noteq> hyphen"
  by (induction s rule: single_hyphens.induct) (auto split: if_splits)

lemma list_all_butlast: "list_all P s \<Longrightarrow> list_all P (butlast s)"
  by (induction s) auto

lemma is_slug_iff:
  "is_slug s \<longleftrightarrow>
     list_all slug_unit s \<and> single_hyphens s \<and> (s \<noteq> [] \<longrightarrow> hd s \<noteq> hyphen \<and> last s \<noteq> hyphen)"
  by (cases s) (simp_all add: is_slug_def)

lemma strip_from_False_ok:
  assumes u: "list_all slug_unit s" and h: "single_hyphens s"
    and st: "s = [] \<or> hd s \<noteq> hyphen"
  shows "is_slug (strip_from False s)"
proof (cases "s \<noteq> [] \<and> last s = hyphen")
  case False
  then have "strip_from False s = s" by (auto simp: strip_from_False)
  with u h st False show ?thesis by (auto simp: is_slug_iff)
next
  case True
  then have r: "strip_from False s = butlast s" by (simp add: strip_from_False)
  have "butlast s \<noteq> [] \<longrightarrow> hd (butlast s) \<noteq> hyphen \<and> last (butlast s) \<noteq> hyphen"
  proof
    assume ne: "butlast s \<noteq> []"
    then have "hd (butlast s) = hd s" by (cases s) auto
    with st True single_hyphens_last2 [OF h ne] 
    show "hd (butlast s) \<noteq> hyphen \<and> last (butlast s) \<noteq> hyphen" by simp
  qed
  with r list_all_butlast [OF u] single_hyphens_butlast [OF h] show ?thesis
    by (simp add: is_slug_iff)
qed

lemma strip_edges_ok:
  assumes u: "list_all slug_unit s" and h: "single_hyphens s"
  shows "is_slug (strip_edges s)"
proof (cases s)
  case Nil
  then show ?thesis by (simp add: strip_edges_def is_slug_def)
next
  case (Cons c cs)
  show ?thesis
  proof (cases "c = hyphen")
    case True
    with Cons u h have "list_all slug_unit cs" "single_hyphens cs" "cs = [] \<or> hd cs \<noteq> hyphen"
      by (auto simp: single_hyphens_hyphen_Cons)
    then have "is_slug (strip_from False cs)" by (rule strip_from_False_ok)
    with Cons True show ?thesis by (simp add: strip_edges_Cons)
  next
    case False
    with Cons have "strip_edges s = strip_from False s" by (simp add: strip_edges_def)
    moreover have "is_slug (strip_from False s)"
      using u h Cons False by (intro strip_from_False_ok) auto
    ultimately show ?thesis by simp
  qed
qed

lemma strip_edges_fixed: "is_slug t \<Longrightarrow> strip_edges t = t"
  by (cases t) (auto simp: is_slug_iff strip_edges_Cons strip_from_False strip_edges_def)

lemma slugify_is_slug: "is_slug (slugify lc s)"
  unfolding slugify_def by (rule strip_edges_ok [OF replace_runs_units replace_runs_single])

lemma replace_runs_fixed:
  "list_all slug_unit t \<Longrightarrow> single_hyphens t \<Longrightarrow> replace_runs t = t"
proof (induction t rule: replace_runs.induct)
  case 1
  show ?case by simp
next
  case (2 c cs)
  show ?case
  proof (cases "lower_or_digit c")
    case True
    with 2 show ?thesis by (simp add: single_hyphens_Cons class_not_hyphen)
  next
    case False
    with 2 have c: "c = hyphen" by (simp add: slug_unit_def)
    with "2.prems" have "cs = [] \<or> lower_or_digit (hd cs)"
      by (cases cs) (auto simp: slug_unit_def)
    then have d: "dropWhile (\<lambda>x. \<not> lower_or_digit x) cs = cs"
      by (cases cs) auto
    from "2.prems" c have "list_all slug_unit cs" "single_hyphens cs"
      by (auto simp: single_hyphens_hyphen_Cons)
    with "2.IH"(2) False d c show ?thesis by simp
  qed
qed

text \<open>
  C10. \<open>slugify\<close> is a function of its argument alone. For every input its result is
  a slug: only the code units of \<open>a\<close> to \<open>z\<close>, \<open>0\<close> to \<open>9\<close> and the hyphen, no two hyphens
  in a row, no hyphen first or last (the empty string is a slug). And \<open>slugify\<close> is
  idempotent, \<open>toLowerCase\<close> being any function that leaves strings of such code units as
  they are, as the platform's does.
\<close>

theorem slugify_slug_idempotent:
  "is_slug (slugify toLowerCase s) \<and>
   ((\<forall>t. list_all slug_unit t \<longrightarrow> toLowerCase t = t) \<longrightarrow>
      slugify toLowerCase (slugify toLowerCase s) = slugify toLowerCase s)"
proof (intro conjI impI)
  show sl: "is_slug (slugify toLowerCase s)" by (rule slugify_is_slug)
  assume lc: "\<forall>t. list_all slug_unit t \<longrightarrow> toLowerCase t = t"
  let ?r = "slugify toLowerCase s"
  from sl have u: "list_all slug_unit ?r" and h: "single_hyphens ?r"
    by (simp_all add: is_slug_iff)
  from lc u have "toLowerCase ?r = ?r" by simp
  then have "slugify toLowerCase ?r = strip_edges (replace_runs ?r)"
    by (simp add: slugify_def)
  also have "\<dots> = strip_edges ?r" by (simp add: replace_runs_fixed [OF u h])
  also have "\<dots> = ?r" by (rule strip_edges_fixed [OF sl])
  finally show "slugify toLowerCase ?r = ?r" .
qed

lemma slug_unit_not_upper: "slug_unit c \<Longrightarrow> \<not> (0x41 \<le> c \<and> c \<le> 0x5A)"
  by (auto simp: slug_unit_def lower_or_digit_def hyphen_def word_le_nat_alt)

lemma ascii_toLowerCase_fixed: "list_all slug_unit t \<Longrightarrow> ascii_toLowerCase t = t"
  by (induction t) (auto simp: ascii_toLowerCase_def dest: slug_unit_not_upper)

theorem slugify_slug_idempotent_witness:
  "slugify ascii_toLowerCase [0x48, 0x69, 0x21, 0x20, 0x58, 0x2D] = [0x68, 0x69, 0x2D, 0x78] \<and>
   is_slug [0x68, 0x69, 0x2D, 0x78] \<and>
   slugify ascii_toLowerCase [0x68, 0x69, 0x2D, 0x78] = [0x68, 0x69, 0x2D, 0x78]"
proof -
  have v: "slugify ascii_toLowerCase [0x48, 0x69, 0x21, 0x20, 0x58, 0x2D] = [0x68, 0x69, 0x2D, 0x78]"
    by (simp add: slugify_def ascii_toLowerCase_def strip_edges_def hyphen_def lower_or_digit_def)
  have f: "\<forall>t. list_all slug_unit t \<longrightarrow> ascii_toLowerCase t = t"
    by (simp add: ascii_toLowerCase_fixed)
  from slugify_slug_idempotent [of ascii_toLowerCase "[0x48, 0x69, 0x21, 0x20, 0x58, 0x2D]"] f v
  show ?thesis by simp
qed

lemma heading_id_is_slug: "is_slug (heading_id toLowerCase ch)"
proof (cases ch)
  case (StringChild s)
  then show ?thesis by (simp add: heading_id_def slugify_is_slug)
next
  case OtherChildren
  then show ?thesis by (simp add: heading_id_def is_slug_def)
qed

section \<open>Facts about the component\<close>

lemma parseInt_H2: "parseInt (charAt ''H2'' (Suc 0)) = Num 2"
  by (simp add: parseInt_def charAt_def is_white_def radix_digit_def digit_of_def digits_value_def)

lemma parseInt_H3: "parseInt (charAt ''H3'' (Suc 0)) = Num 3"
  by (simp add: parseInt_def charAt_def is_white_def radix_digit_def digit_of_def digits_value_def)

lemma or_empty_eq: "or_empty t = (case t of None \<Rightarrow> [] | Some x \<Rightarrow> x)"
  by (simp add: or_empty_def split: option.splits)

lemma toc_item_matched:
  "matches_h2_h3 e \<Longrightarrow>
   toc_item e = \<lparr>item_id = elem_id e,
                 item_text = (case textContent e of None \<Rightarrow> [] | Some x \<Rightarrow> x),
                 level = (if tagName e = ''H2'' then Num 2 else Num 3)\<rparr>"
  by (auto simp: matches_h2_h3_def toc_item_def parseInt_H2 parseInt_H3 or_empty_eq)

lemma set_foldl_observe: "set (targets (foldl observe ob es)) = set (targets ob) \<union> set es"
  by (induction es arbitrary: ob) (auto simp: observe_def)

lemma mount_component:
  "component (mount p) =
     Some \<lparr>headings = map toc_item (querySelectorAll_h2_h3 (document p)), activeId = []\<rparr>"
  by (simp add: mount_def mount_effect_def setHeadings_def Let_def)

lemma mount_effects:
  "effects (mount p) = effects p @ [SetHeadings (map toc_item (querySelectorAll_h2_h3 (document p)))]"
  by (simp add: mount_def mount_effect_def setHeadings_def Let_def)

lemma mount_document: "document (mount p) = document p"
  by (simp add: mount_def mount_effect_def setHeadings_def Let_def)

lemma mount_observer:
  "\<exists>ob. the_observer (mount p) = Some ob \<and> set (targets ob) = set (querySelectorAll_h2_h3 (document p))"
  by (simp add: mount_def mount_effect_def setHeadings_def Let_def set_foldl_observe)

lemma callback_frame:
  "document (callback es p) = document p \<and> the_observer (callback es p) = the_observer p"
  by (induction es arbitrary: p) (auto simp: setActiveId_def)

lemma callback_effects:
  "effects (callback es p) =
     effects p @ map (\<lambda>e. SetActiveId (elem_id (target e))) (filter isIntersecting es)"
  by (induction es arbitrary: p) (auto simp: setActiveId_def)

lemma callback_component:
  "component p = Some st \<Longrightarrow>
   component (callback es p) =
     Some (st\<lparr>activeId := (case filter isIntersecting es of [] \<Rightarrow> activeId st
                              | x # xs \<Rightarrow> elem_id (target (last (x # xs))))\<rparr>)"
proof (induction es arbitrary: p st)
  case Nil
  then show ?case by simp
next
  case (Cons e es)
  show ?case
  proof (cases "isIntersecting e")
    case False
    with Cons show ?thesis by simp
  next
    case True
    let ?st = "st\<lparr>activeId := elem_id (target e)\<rparr>"
    have "component (setActiveId (elem_id (target e)) p) = Some ?st"
      using Cons.prems by (simp add: setActiveId_def)
    from Cons.IH [OF this] True show ?thesis
      by (simp split: list.splits)
  qed
qed

lemma callback_none: "component p = None \<Longrightarrow> component (callback es p) = None"
  by (induction es arbitrary: p) (auto simp: setActiveId_def)

lemma find_first: "list_ex P xs \<Longrightarrow> \<exists>x. find P xs = Some x \<and> x \<in> set xs \<and> P x"
  by (induction xs) auto

lemma getElementById_Some:
  "id_present doc i \<Longrightarrow> \<exists>e. getElementById doc i = Some e \<and> e \<in> set doc \<and> elem_id e = i"
  using find_first [of "\<lambda>e. elem_id e = i" doc] by (auto simp: id_present_def getElementById_def)

lemma getElementById_None: "\<not> id_present doc i \<Longrightarrow> getElementById doc i = None"
  by (auto simp: id_present_def getElementById_def find_None_iff list_ex_iff)

lemma deliver_frame:
  "document (deliver es p) = document p \<and> the_observer (deliver es p) = the_observer p"
  by (simp add: deliver_def Let_def callback_frame split: option.splits)

lemma deliver_released: "released p \<Longrightarrow> deliver es p = p"
  by (simp add: released_def deliver_def split: option.splits)

lemma deliver_headings:
  "component p = Some st \<Longrightarrow>
   \<exists>st'. component (deliver es p) = Some st' \<and> headings st' = headings st"
  by (simp add: deliver_def Let_def callback_component split: option.splits)

lemma deliver_none: "component p = None \<Longrightarrow> component (deliver es p) = None"
  by (simp add: deliver_def Let_def callback_none split: option.splits)

lemma deliver_SetHeadings:
  "filter is_SetHeadings (effects (deliver es p)) = filter is_SetHeadings (effects p)"
  by (simp add: deliver_def Let_def callback_effects filter_map comp_def split: option.splits)

lemma onClick_frame:
  "\<exists>p'. onClick h p = Inr p' \<and> component p' = component p \<and> document p' = document p \<and>
     the_observer p' = the_observer p \<and>
     filter is_SetHeadings (effects p') = filter is_SetHeadings (effects p)"
  by (simp add: onClick_def Let_def split: option.splits)

lemma unmount_released: "released (unmount p) \<and> component (unmount p) = None"
  by (simp add: unmount_def cleanup_def released_def disconnect_def split: option.splits)

lemma step_unmounted:
  assumes "component p = None" "released p" "\<not> is_Mount ev"
  shows "step p ev = (case ev of Mutate doc \<Rightarrow> p\<lparr>document := doc\<rparr> | _ \<Rightarrow> p)"
  using assms by (cases ev) (simp_all add: deliver_released)

lemma run_unmounted:
  "component p = None \<Longrightarrow> released p \<Longrightarrow> list_all (\<lambda>ev. \<not> is_Mount ev) evs \<Longrightarrow>
   component (run p evs) = None \<and> released (run p evs) \<and> effects (run p evs) = effects p"
proof (induction evs arbitrary: p)
  case Nil
  then show ?case by (simp add: run_def)
next
  case (Cons ev evs)
  from Cons.prems have s: "step p ev = (case ev of Mutate doc \<Rightarrow> p\<lparr>document := doc\<rparr> | _ \<Rightarrow> p)"
    by (intro step_unmounted) auto
  with Cons.prems have "component (step p ev) = None" "released (step p ev)"
    "effects (step p ev) = effects p"
    by (auto simp: released_def split: event.splits)
  with Cons.IH [of "step p ev"] Cons.prems(3) show ?case by (simp add: run_def)
qed

lemma step_mounted:
  assumes "component p = Some st" "ev \<noteq> Unmount"
  shows "\<exists>st'. component (step p ev) = Some st' \<and> headings st' = headings st \<and>
           filter is_SetHeadings (effects (step p ev)) = filter is_SetHeadings (effects p)"
proof (cases ev)
  case (Report es)
  with deliver_headings [OF assms(1), of es] show ?thesis by (simp add: deliver_SetHeadings)
next
  case (Activate h)
  with assms(1) onClick_frame [of h p] show ?thesis by auto
qed (use assms in simp_all)

lemma run_mounted:
  "component p = Some st \<Longrightarrow> Unmount \<notin> set evs \<Longrightarrow>
   \<exists>st'. component (run p evs) = Some st' \<and> headings st' = headings st \<and>
     filter is_SetHeadings (effects (run p evs)) = filter is_SetHeadings (effects p)"
proof (induction evs arbitrary: p st)
  case Nil
  then show ?case by (simp add: run_def)
next
  case (Cons ev evs)
  from Cons.prems have "ev \<noteq> Unmount" by auto
  from step_mounted [OF Cons.prems(1) this] obtain st1 where
    s: "component (step p ev) = Some st1" "headings st1 = headings st"
       "filter is_SetHeadings (effects (step p ev)) = filter is_SetHeadings (effects p)"
    by blast
  from Cons.IH [OF s(1)] Cons.prems(2) s(2,3) show ?case by (simp add: run_def)
qed

lemma step_no_headings:
  assumes "querySelectorAll_h2_h3 (document p) = []"
    and "\<forall>st. component p = Some st \<longrightarrow> headings st = []"
    and "\<not> is_Mutate ev"
  shows "querySelectorAll_h2_h3 (document (step p ev)) = [] \<and>
         (\<forall>st. component (step p ev) = Some st \<longrightarrow> headings st = [])"
proof (cases ev)
  case Mount
  with assms show ?thesis
    by (auto simp: mount_component mount_document split: option.splits)
next
  case Unmount
  with assms show ?thesis
    by (auto simp: unmount_def cleanup_def split: option.splits)
next
  case (Report es)
  show ?thesis
  proof (cases "component p")
    case None
    with Report assms deliver_none [OF None, of es] show ?thesis
      by (simp add: deliver_frame)
  next
    case (Some st)
    with Report assms deliver_headings [OF Some, of es] show ?thesis
      by (auto simp: deliver_frame)
  qed
next
  case (Activate h)
  with assms show ?thesis by (auto split: option.splits)
next
  case (Mutate doc)
  with assms show ?thesis by simp
qed

lemma run_no_headings:
  "querySelectorAll_h2_h3 (document p) = [] \<Longrightarrow>
   \<forall>st. component p = Some st \<longrightarrow> headings st = [] \<Longrightarrow>
   list_all (\<lambda>ev. \<not> is_Mutate ev) evs \<Longrightarrow>
   \<forall>st. component (run p evs) = Some st \<longrightarrow> headings st = []"
proof (induction evs arbitrary: p)
  case Nil
  then show ?case by (simp add: run_def)
next
  case (Cons ev evs)
  from Cons.prems have "\<not> is_Mutate ev" by simp
  from step_no_headings [OF Cons.prems(1,2) this] Cons.IH [of "step p ev"] Cons.prems(3)
  show ?case by (simp add: run_def)
qed

subsection \<open>The small page, evaluated\<close>

lemma example_query: "querySelectorAll_h2_h3 example_doc = [section_2, section_3]"
  by (simp add: querySelectorAll_h2_h3_def matches_h2_h3_def example_doc_def section_2_def
      section_3_def prose_def)

lemma example_headings: "filter is_heading example_doc = [section_2, section_3]"
  by (simp add: is_heading_def example_doc_def section_2_def section_3_def prose_def)

lemma example_items:
  "toc_item section_2 = \<lparr>item_id = ''section-2'', item_text = ''Setup'', level = Num 2\<rparr>"
  "toc_item section_3 = \<lparr>item_id = ''section-3'', item_text = ''Details'', level = Num 3\<rparr>"
  by (simp_all add: toc_item_def section_2_def section_3_def or_empty_def parseInt_def charAt_def
      is_white_def radix_digit_def digit_of_def digits_value_def)

lemma example_mounted:
  "component (step (initial_page example_doc) Mount) =
     Some \<lparr>headings = [\<lparr>item_id = ''section-2'', item_text = ''Setup'', level = Num 2\<rparr>,
                       \<lparr>item_id = ''section-3'', item_text = ''Details'', level = Num 3\<rparr>],
           activeId = []\<rparr>"
  by (simp add: initial_page_def mount_component example_query example_items)

lemma example_page:
  "step (initial_page example_doc) Mount =
     \<lparr>document = example_doc,
      component =
        Some \<lparr>headings = [\<lparr>item_id = ''section-2'', item_text = ''Setup'', level = Num 2\<rparr>,
                          \<lparr>item_id = ''section-3'', item_text = ''Details'', level = Num 3\<rparr>],
              activeId = []\<rparr>,
      the_observer = Some \<lparr>rootMargin = ''-100px 0px -80% 0px'', targets = [section_2, section_3]\<rparr>,
      effects = [SetHeadings [\<lparr>item_id = ''section-2'', item_text = ''Setup'', level = Num 2\<rparr>,
                              \<lparr>item_id = ''section-3'', item_text = ''Details'', level = Num 3\<rparr>]]\<rparr>"
proof -
  have "section_2 \<noteq> section_3" by (simp add: section_2_def section_3_def)
  then show ?thesis
    by (simp add: initial_page_def mount_def mount_effect_def setHeadings_def Let_def
        example_query example_items observe_def)
qed

section \<open>The claims about the table of contents\<close>

text \<open>
  C1. When every heading element of the document is an \<open>h2\<close> or an \<open>h3\<close> and the
  headings bear distinct, non-empty identifiers, mounting produces a \<open>headings\<close> list
  with exactly one entry for each heading element, in document order; the entry's id,
  text and level are the element's identifier, its text content and the digit of its tag.
\<close>

theorem mount_extracts_headings:
  assumes "component p = None"
    and "\<forall>e\<in>set (document p). is_heading e \<longrightarrow> matches_h2_h3 e"
    and "distinct (map elem_id (filter is_heading (document p)))"
    and "\<forall>e\<in>set (filter is_heading (document p)). elem_id e \<noteq> []"
  shows "\<exists>st. component (step p Mount) = Some st \<and>
           length (headings st) = length (filter is_heading (document p)) \<and>
           headings st =
             map (\<lambda>e. \<lparr>item_id = elem_id e,
                        item_text = (case textContent e of None \<Rightarrow> [] | Some x \<Rightarrow> x),
                        level = (if tagName e = ''H2'' then Num 2 else Num 3)\<rparr>)
               (filter is_heading (document p))"
proof -
  have m: "matches_h2_h3 e \<Longrightarrow> is_heading e" for e
    by (auto simp: matches_h2_h3_def is_heading_def)
  with assms(2) have "filter matches_h2_h3 (document p) = filter is_heading (document p)"
    by (intro filter_cong) auto
  then have q: "querySelectorAll_h2_h3 (document p) = filter is_heading (document p)"
    by (simp add: querySelectorAll_h2_h3_def)
  have "map toc_item (filter is_heading (document p)) =
        map (\<lambda>e. \<lparr>item_id = elem_id e,
                        item_text = (case textContent e of None \<Rightarrow> [] | Some x \<Rightarrow> x),
                        level = (if tagName e = ''H2'' then Num 2 else Num 3)\<rparr>)
               (filter is_heading (document p))"
    using assms(2) by (intro map_cong refl toc_item_matched) auto
  with q assms(1) show ?thesis by (simp add: mount_component)
qed

theorem mount_extracts_headings_witness:
  "\<exists>st. component (step (initial_page example_doc) Mount) = Some st \<and>
     length (headings st) = 2 \<and>
     headings st = [\<lparr>item_id = ''section-2'', item_text = ''Setup'', level = Num 2\<rparr>,
                    \<lparr>item_id = ''section-3'', item_text = ''Details'', level = Num 3\<rparr>]"
proof -
  let ?p = "initial_page example_doc"
  have d: "document ?p = example_doc" by (simp add: initial_page_def)
  have 1: "component ?p = None" by (simp add: initial_page_def)
  have 2: "\<forall>e\<in>set (document ?p). is_heading e \<longrightarrow> matches_h2_h3 e"
    unfolding d
    by (simp add: example_doc_def is_heading_def matches_h2_h3_def section_2_def
        section_3_def prose_def)
  have 3: "distinct (map elem_id (filter is_heading (document ?p)))"
    unfolding d example_headings by (simp add: section_2_def section_3_def)
  have 4: "\<forall>e\<in>set (filter is_heading (document ?p)). elem_id e \<noteq> []"
    unfolding d example_headings by (simp add: section_2_def section_3_def)
  from mount_extracts_headings [OF 1 2 3 4] show ?thesis
    unfolding d example_headings
    by (simp add: section_2_def section_3_def numeral_2_eq_2 del: step.simps)
qed

text \<open>
  C2. The observer callback handles the reports of a batch in the order of delivery. A
  report of an intersecting target sets \<open>activeId\<close> to the identifier of that target, a
  report of a target that is not intersecting changes nothing. After the batch,
  \<open>activeId\<close> is the identifier of the last intersecting report, or its value from
  before when no report intersects.
\<close>

theorem callback_last_intersecting_wins:
  assumes "component p = Some st"
  shows "(isIntersecting e \<longrightarrow>
            component (callback [e] p) = Some (st\<lparr>activeId := elem_id (target e)\<rparr>)) \<and>
         (\<not> isIntersecting e \<longrightarrow> callback [e] p = p) \<and>
         callback (e # es) p = callback es (callback [e] p) \<and>
         component (callback es p) =
           Some (st\<lparr>activeId := (case filter isIntersecting es of [] \<Rightarrow> activeId st
                                    | x # xs \<Rightarrow> elem_id (target (last (x # xs))))\<rparr>)"
  using assms callback_component [OF assms, of es] by (simp add: setActiveId_def)

theorem callback_last_intersecting_wins_witness:
  "map_option activeId
     (component (callback [visible section_2] (step (initial_page example_doc) Mount))) =
     Some ''section-2'' \<and>
   map_option activeId
     (component (callback [visible section_3]
        (callback [visible section_2] (step (initial_page example_doc) Mount)))) =
     Some ''section-3'' \<and>
   map_option activeId
     (component (callback [visible section_2, hidden section_3]
        (step (initial_page example_doc) Mount))) =
     Some ''section-2''"
proof -
  let ?p = "step (initial_page example_doc) Mount"
  note m = example_mounted
  have a: "map_option activeId (component (callback [visible section_2] ?p)) = Some ''section-2''"
    using callback_last_intersecting_wins [OF m, of "visible section_2" "[]"]
    by (simp add: visible_def section_2_def del: step.simps callback.simps)
  have "callback [visible section_3] (callback [visible section_2] ?p) =
        callback [visible section_2, visible section_3] ?p"
    using callback_last_intersecting_wins [OF m, of "visible section_2" "[visible section_3]"]
    by (simp del: step.simps callback.simps)
  moreover have "map_option activeId (component (callback [visible section_2, visible section_3] ?p)) =
      Some ''section-3''"
    using callback_last_intersecting_wins [OF m, of "visible section_2" "[visible section_2, visible section_3]"]
    by (simp add: visible_def section_3_def del: step.simps callback.simps)
  moreover have "map_option activeId (component (callback [visible section_2, hidden section_3] ?p)) =
      Some ''section-2''"
    using callback_last_intersecting_wins [OF m, of "visible section_2" "[visible section_2, hidden section_3]"]
    by (simp add: visible_def hidden_def section_2_def del: step.simps callback.simps)
  ultimately show ?thesis using a by simp
qed

text \<open>
  C3. Unmounting a mounted component discards its state and disconnects the observer,
  which then has no observation target left; every step that leaves the mounted state
  does so. After the unmount, no visibility report, document change or click causes any
  further effect (in particular no \<open>setActiveId\<close>), as long as the component is not
  mounted again.
\<close>

theorem unmount_releases_observer:
  assumes "component p = Some st"
  shows "component (step p Unmount) = None \<and> released (step p Unmount) \<and>
         (\<forall>evs. list_all (\<lambda>ev. \<not> is_Mount ev) evs \<longrightarrow>
            effects (run (step p Unmount) evs) = effects (step p Unmount) \<and>
            component (run (step p Unmount) evs) = None \<and>
            released (run (step p Unmount) evs)) \<and>
         (\<forall>ev. component (step p ev) = None \<longrightarrow> released (step p ev))"
proof (intro conjI allI impI)
  from assms have u: "step p Unmount = unmount p" by simp
  with unmount_released [of p] show c: "component (step p Unmount) = None"
    and r: "released (step p Unmount)" by simp_all
  fix evs assume "list_all (\<lambda>ev. \<not> is_Mount ev) evs"
  from run_unmounted [OF c r this]
  show "effects (run (step p Unmount) evs) = effects (step p Unmount)"
    and "component (run (step p Unmount) evs) = None"
    and "released (run (step p Unmount) evs)" by simp_all
next
  fix ev assume n: "component (step p ev) = None"
  have "ev = Unmount"
  proof (rule ccontr)
    assume "ev \<noteq> Unmount"
    from step_mounted [OF assms this] n show False by auto
  qed
  with assms unmount_released [of p] show "released (step p ev)" by simp
qed

theorem unmount_releases_observer_witness:
  "effects (run (step (step (initial_page example_doc) Mount) Unmount)
      [Report [visible section_2], Mutate [prose], Report [visible section_3]]) =
     effects (step (initial_page example_doc) Mount) \<and>
   released (step (step (initial_page example_doc) Mount) Unmount) \<and>
   effects (run (step (initial_page example_doc) Mount) [Report [visible section_2]]) =
     effects (step (initial_page example_doc) Mount) @ [SetActiveId ''section-2'']"
proof -
  let ?m = "step (initial_page example_doc) Mount"
  have e: "effects (step ?m Unmount) = effects ?m"
    unfolding example_page by (simp add: unmount_def cleanup_def)
  have l: "list_all (\<lambda>ev. \<not> is_Mount ev)
             [Report [visible section_2], Mutate [prose], Report [visible section_3]]"
    by simp
  have "effects (run ?m [Report [visible section_2]]) = effects ?m @ [SetActiveId ''section-2'']"
    unfolding example_page
    by (simp add: run_def deliver_def visible_def setActiveId_def) (simp add: section_2_def)
  with unmount_releases_observer [OF example_mounted] l e show ?thesis
    by (simp del: step.simps)
qed

text \<open>
  C4. Activating an entry whose id is the ID of an element of the current document calls
  \<open>preventDefault\<close>, which suppresses the anchor jump, and then \<open>scrollIntoView\<close>
  exactly once, on the element that \<open>getElementById\<close> finds for that id, with smooth
  behaviour and the block start. Nothing else happens.
\<close>

theorem activate_scrolls_to_target:
  assumes "id_present (document p) (item_id h)"
  shows "\<exists>e. getElementById (document p) (item_id h) = Some e \<and>
           e \<in> set (document p) \<and> elem_id e = item_id h \<and>
           onClick h p =
             Inr (p\<lparr>effects := effects p @ [PreventDefault, ScrollIntoView e ''smooth'' ''start'']\<rparr>) \<and>
           (\<forall>st. component p = Some st \<and> h \<in> set (headings st) \<longrightarrow>
              step p (Activate h) =
                p\<lparr>effects := effects p @ [PreventDefault, ScrollIntoView e ''smooth'' ''start'']\<rparr>)"
  using getElementById_Some [OF assms] by (auto simp: onClick_def)

theorem activate_scrolls_to_target_witness:
  "onClick (toc_item section_2) (step (initial_page example_doc) Mount) =
     Inr ((step (initial_page example_doc) Mount)
          \<lparr>effects := effects (step (initial_page example_doc) Mount) @
             [PreventDefault, ScrollIntoView section_2 ''smooth'' ''start'']\<rparr>)"
proof -
  let ?m = "step (initial_page example_doc) Mount"
  have d: "document ?m = example_doc" unfolding example_page by simp
  have i: "item_id (toc_item section_2) = ''section-2''" by (simp add: example_items)
  have g: "getElementById example_doc ''section-2'' = Some section_2"
    by (simp add: getElementById_def example_doc_def section_2_def)
  have "id_present (document ?m) (item_id (toc_item section_2))"
    unfolding d i by (simp add: id_present_def example_doc_def section_2_def)
  from activate_scrolls_to_target [OF this] obtain e where
    "getElementById (document ?m) (item_id (toc_item section_2)) = Some e"
    "onClick (toc_item section_2) ?m =
       Inr (?m\<lparr>effects := effects ?m @ [PreventDefault, ScrollIntoView e ''smooth'' ''start'']\<rparr>)"
    by blast
  then show ?thesis unfolding d i g by simp
qed

text \<open>
  C5. Activating an entry whose id is not the ID of any element of the current document
  returns normally and only calls \<open>preventDefault\<close>: no scroll is started, and the
  document, the component state and the observer are unchanged.
\<close>

theorem activate_stale_target_noop:
  assumes "\<not> id_present (document p) (item_id h)"
  shows "onClick h p = Inr (p\<lparr>effects := effects p @ [PreventDefault]\<rparr>) \<and>
         (\<forall>st. component p = Some st \<and> h \<in> set (headings st) \<longrightarrow>
            step p (Activate h) = p\<lparr>effects := effects p @ [PreventDefault]\<rparr>)"
  using getElementById_None [OF assms] by (simp add: onClick_def)

theorem activate_stale_target_noop_witness:
  "onClick (toc_item section_2) (step (step (initial_page example_doc) Mount) (Mutate [prose])) =
     Inr ((step (step (initial_page example_doc) Mount) (Mutate [prose]))
          \<lparr>effects := effects (step (initial_page example_doc) Mount) @ [PreventDefault]\<rparr>)"
proof -
  let ?q = "step (step (initial_page example_doc) Mount) (Mutate [prose])"
  have d: "document ?q = [prose]" by simp
  have e: "effects ?q = effects (step (initial_page example_doc) Mount)" by simp
  have i: "item_id (toc_item section_2) = ''section-2''" by (simp add: example_items)
  have "\<not> id_present (document ?q) (item_id (toc_item section_2))"
    unfolding d i by (simp add: id_present_def prose_def)
  from activate_stale_target_noop [OF this] show ?thesis unfolding e by simp
qed

text \<open>
  C6. For a document without any \<open>h2\<close> or \<open>h3\<close> element, mounting yields the empty
  \<open>headings\<close> list and the component renders \<open>null\<close>; and whatever happens to the page
  afterwards, short of a change of the document, nothing is rendered.
\<close>

theorem no_headings_renders_nothing:
  assumes "querySelectorAll_h2_h3 doc = []"
  shows "(\<exists>st. component (step (initial_page doc) Mount) = Some st \<and> headings st = [] \<and>
            render st = None) \<and>
         (\<forall>evs. list_all (\<lambda>ev. \<not> is_Mutate ev) evs \<longrightarrow> view (run (initial_page doc) evs) = None)"
proof (intro conjI allI impI)
  show "\<exists>st. component (step (initial_page doc) Mount) = Some st \<and> headings st = [] \<and>
            render st = None"
    using assms by (simp add: initial_page_def mount_component render_def)
next
  fix evs assume "list_all (\<lambda>ev. \<not> is_Mutate ev) evs"
  with run_no_headings [of "initial_page doc" evs] assms
  have "\<forall>st. component (run (initial_page doc) evs) = Some st \<longrightarrow> headings st = []"
    by (simp add: initial_page_def)
  then show "view (run (initial_page doc) evs) = None"
    by (simp add: view_def render_def split: option.splits)
qed

theorem no_headings_renders_nothing_witness:
  "view (run (initial_page [prose]) [Mount, Report [visible prose], Unmount, Mount]) = None \<and>
   (\<exists>st. component (step (initial_page [prose]) Mount) = Some st \<and> render st = None)"
proof -
  have q: "querySelectorAll_h2_h3 [prose] = []"
    by (simp add: querySelectorAll_h2_h3_def matches_h2_h3_def prose_def)
  have "list_all (\<lambda>ev. \<not> is_Mutate ev) [Mount, Report [visible prose], Unmount, Mount]"
    by simp
  with no_headings_renders_nothing [OF q] show ?thesis by blast
qed

text \<open>
  C7 as stated does not hold. On a page whose only heading is an \<open>h2\<close> without
  identifier, \<open>headings\<close> has an entry for that heading, and the entry is rendered
  highlighted from the start, \<open>activeId\<close> being the empty string initially.
\<close>

theorem idless_heading_counterexample:
  "matches_h2_h3 anonymous_heading \<and> elem_id anonymous_heading = [] \<and>
   map_option headings (component (step (initial_page [anonymous_heading]) Mount)) =
     Some [\<lparr>item_id = [], item_text = ''Intro'', level = Num 2\<rparr>] \<and>
   map_option (map className) (view (step (initial_page [anonymous_heading]) Mount)) =
     Some [base_class @ active_class]"
proof -
  have q: "querySelectorAll_h2_h3 [anonymous_heading] = [anonymous_heading]"
    by (simp add: querySelectorAll_h2_h3_def matches_h2_h3_def anonymous_heading_def)
  have t: "toc_item anonymous_heading = \<lparr>item_id = [], item_text = ''Intro'', level = Num 2\<rparr>"
    by (simp add: toc_item_def anonymous_heading_def or_empty_def parseInt_def charAt_def
        is_white_def radix_digit_def digit_of_def digits_value_def)
  have c: "component (step (initial_page [anonymous_heading]) Mount) =
      Some \<lparr>headings = [\<lparr>item_id = [], item_text = ''Intro'', level = Num 2\<rparr>], activeId = []\<rparr>"
    by (simp add: initial_page_def mount_component q t)
  show ?thesis
    unfolding c view_def
    by (simp add: render_def render_item_def matches_h2_h3_def anonymous_heading_def)
qed

text \<open>
  C7, as the code has it. The extraction does not skip an \<open>h2\<close> or \<open>h3\<close> that lacks an
  identifier: \<open>headings\<close> has one entry for every element of the document whose tag is
  \<open>H2\<close> or \<open>H3\<close>, with or without identifier, in document order, and the entry of an
  element without identifier has the empty string as its id, with text and level taken as
  for any other heading. (How such an entry is highlighted is left out: the initial
  \<open>activeId\<close> and the id of such an entry are both the empty string.)
\<close>

theorem idless_headings_listed:
  assumes "component p = None"
  shows "\<exists>st. component (step p Mount) = Some st \<and>
           headings st =
             map (\<lambda>e. \<lparr>item_id = elem_id e,
                        item_text = (case textContent e of None \<Rightarrow> [] | Some x \<Rightarrow> x),
                        level = (if tagName e = ''H2'' then Num 2 else Num 3)\<rparr>)
               (filter (\<lambda>e. tagName e = ''H2'' \<or> tagName e = ''H3'') (document p)) \<and>
           (\<forall>i<length (filter (\<lambda>e. tagName e = ''H2'' \<or> tagName e = ''H3'') (document p)).
              elem_id (filter (\<lambda>e. tagName e = ''H2'' \<or> tagName e = ''H3'') (document p) ! i) = [] \<longrightarrow>
                i < length (headings st) \<and> item_id (headings st ! i) = [])"
proof -
  let ?hs = "filter (\<lambda>e. tagName e = ''H2'' \<or> tagName e = ''H3'') (document p)"
  let ?f = "\<lambda>e. \<lparr>item_id = elem_id e,
                 item_text = (case textContent e of None \<Rightarrow> [] | Some x \<Rightarrow> x),
                 level = (if tagName e = ''H2'' then Num 2 else Num 3)\<rparr>"
  from assms have m: "step p Mount = mount p" by simp
  have "matches_h2_h3 = (\<lambda>e. tagName e = ''H2'' \<or> tagName e = ''H3'')"
    by (rule ext) (simp add: matches_h2_h3_def)
  then have q: "querySelectorAll_h2_h3 (document p) = ?hs"
    by (simp add: querySelectorAll_h2_h3_def)
  have "map toc_item ?hs = map ?f ?hs"
    by (intro map_cong refl toc_item_matched) (simp add: matches_h2_h3_def)
  with q have h: "component (mount p) = Some \<lparr>headings = map ?f ?hs, activeId = []\<rparr>"
    by (simp add: mount_component)
  show ?thesis unfolding m h by simp
qed

theorem idless_headings_listed_witness:
  "\<exists>st. component (step (initial_page [section_2, prose, anonymous_heading]) Mount) = Some st \<and>
     headings st = [\<lparr>item_id = ''section-2'', item_text = ''Setup'', level = Num 2\<rparr>,
                    \<lparr>item_id = [], item_text = ''Intro'', level = Num 2\<rparr>] \<and>
     item_id (headings st ! 1) = []"
proof -
  let ?p = "initial_page [section_2, prose, anonymous_heading]"
  have 1: "component ?p = None" by (simp add: initial_page_def)
  have d: "document ?p = [section_2, prose, anonymous_heading]" by (simp add: initial_page_def)
  have f: "filter (\<lambda>e. tagName e = ''H2'' \<or> tagName e = ''H3'') [section_2, prose, anonymous_heading] =
      [section_2, anonymous_heading]"
    by (simp add: section_2_def prose_def anonymous_heading_def)
  have s: "elem_id section_2 = ''section-2''" "textContent section_2 = Some ''Setup''"
    "tagName section_2 = ''H2''" by (simp_all add: section_2_def)
  have a: "elem_id anonymous_heading = []" "textContent anonymous_heading = Some ''Intro''"
    "tagName anonymous_heading = ''H2''" by (simp_all add: anonymous_heading_def)
  from idless_headings_listed [OF 1] obtain st where
    c: "component (step ?p Mount) = Some st"
    and h: "headings st = [\<lparr>item_id = ''section-2'', item_text = ''Setup'', level = Num 2\<rparr>,
                    \<lparr>item_id = [], item_text = ''Intro'', level = Num 2\<rparr>]"
    and i: "\<forall>i<length [section_2, anonymous_heading].
              elem_id ([section_2, anonymous_heading] ! i) = [] \<longrightarrow>
                i < length (headings st) \<and> item_id (headings st ! i) = []"
    unfolding d f by (auto simp: s a simp del: step.simps)
  from i a(1) have "item_id (headings st ! 1) = []" by simp
  with c h show ?thesis by blast
qed

text \<open>
  C8. In the rendered list the \<open>paddingLeft\<close> of an entry is three quarters of a
  \<open>rem\<close> times (level - 2), 2 being the lower of the two permitted levels. So an entry
  of level 3 is indented strictly more than an entry of level 2, and two entries of the
  same level are indented equally.
\<close>

theorem indentation_by_level:
  assumes "render st = Some lis"
  shows "length lis = length (headings st) \<and>
         (\<forall>i<length lis. \<forall>l. level (headings st ! i) = Num l \<longrightarrow>
            paddingLeft (lis ! i) = Num ((l - 2) * (3 / 4))) \<and>
         (\<forall>i<length lis. \<forall>j<length lis.
            (level (headings st ! i) = Num 3 \<and> level (headings st ! j) = Num 2 \<longrightarrow>
               js_less (paddingLeft (lis ! j)) (paddingLeft (lis ! i))) \<and>
            (level (headings st ! i) = level (headings st ! j) \<longrightarrow>
               paddingLeft (lis ! i) = paddingLeft (lis ! j)))"
proof -
  from assms have l: "lis = map (render_item (activeId st)) (headings st)"
    by (simp add: render_def split: if_splits)
  then show ?thesis by (simp add: render_item_def)
qed

theorem indentation_by_level_witness:
  "\<exists>lis. render \<lparr>headings = [\<lparr>item_id = ''section-2'', item_text = ''Setup'', level = Num 2\<rparr>,
                               \<lparr>item_id = ''section-3'', item_text = ''Details'', level = Num 3\<rparr>],
                   activeId = ''section-2''\<rparr> = Some lis \<and>
     length lis = 2 \<and> paddingLeft (lis ! 0) = Num 0 \<and> paddingLeft (lis ! 1) = Num (3 / 4) \<and>
     js_less (paddingLeft (lis ! 0)) (paddingLeft (lis ! 1))"
proof -
  let ?st = "\<lparr>headings = [\<lparr>item_id = ''section-2'', item_text = ''Setup'', level = Num 2\<rparr>,
                          \<lparr>item_id = ''section-3'', item_text = ''Details'', level = Num 3\<rparr>],
              activeId = ''section-2''\<rparr>"
  obtain lis where r: "render ?st = Some lis" by (simp add: render_def)
  from indentation_by_level [OF r] have
    len: "length lis = 2"
    and pad: "\<forall>i<length lis. \<forall>l. level (headings ?st ! i) = Num l \<longrightarrow>
            paddingLeft (lis ! i) = Num ((l - 2) * (3 / 4))"
    and cmp: "\<forall>i<length lis. \<forall>j<length lis.
            (level (headings ?st ! i) = Num 3 \<and> level (headings ?st ! j) = Num 2 \<longrightarrow>
               js_less (paddingLeft (lis ! j)) (paddingLeft (lis ! i)))"
    by simp_all
  from pad len have "paddingLeft (lis ! 0) = Num 0" by simp
  moreover from pad len have "paddingLeft (lis ! 1) = Num (3 / 4)" by simp
  moreover from cmp len have "js_less (paddingLeft (lis ! 0)) (paddingLeft (lis ! 1))" by simp
  ultimately show ?thesis using r len by simp
qed

text \<open>
  C9. From the mount until the next unmount, whatever visibility reports, clicks and
  document changes occur, \<open>headings\<close> stays the list that the scan at mount time
  produced, and \<open>setHeadings\<close> has been called exactly once in that time. A change of
  the document and a click leave both fields of the state as they are.
\<close>

theorem headings_populated_once:
  assumes "component p = None" "Unmount \<notin> set evs"
  shows "\<exists>st. component (run (step p Mount) evs) = Some st \<and>
           headings st = map toc_item (querySelectorAll_h2_h3 (document p)) \<and>
           filter is_SetHeadings (effects (run (step p Mount) evs)) =
             filter is_SetHeadings (effects p) @
               [SetHeadings (map toc_item (querySelectorAll_h2_h3 (document p)))] \<and>
           component (step q (Mutate doc)) = component q \<and>
           component (step q (Activate h)) = component q"
proof -
  from assms(1) have m: "step p Mount = mount p" by simp
  have "component (step q (Activate h)) = component q"
    using onClick_frame [of h q] by (auto split: option.splits)
  with run_mounted [OF mount_component assms(2), of p] show ?thesis
    unfolding m by (simp add: mount_effects)
qed

theorem headings_populated_once_witness:
  "map_option headings
     (component (run (step (initial_page example_doc) Mount)
        [Report [visible section_3], Mutate [prose], Activate (toc_item section_2), Mount])) =
     Some [\<lparr>item_id = ''section-2'', item_text = ''Setup'', level = Num 2\<rparr>,
           \<lparr>item_id = ''section-3'', item_text = ''Details'', level = Num 3\<rparr>] \<and>
   map_option activeId
     (component (run (step (initial_page example_doc) Mount) [Report [visible section_3]])) =
     Some ''section-3''"
proof -
  let ?m = "step (initial_page example_doc) Mount"
  let ?evs = "[Report [visible section_3], Mutate [prose], Activate (toc_item section_2), Mount]"
  have 1: "component (initial_page example_doc) = None" by (simp add: initial_page_def)
  have 2: "Unmount \<notin> set ?evs" by simp
  have d: "document (initial_page example_doc) = example_doc" by (simp add: initial_page_def)
  have a: "map_option activeId (component (run ?m [Report [visible section_3]])) = Some ''section-3''"
    unfolding example_page
    by (simp add: run_def deliver_def visible_def setActiveId_def) (simp add: section_3_def)
  from headings_populated_once [OF 1 2] obtain st where
    "component (run ?m ?evs) = Some st"
    "headings st = map toc_item (querySelectorAll_h2_h3 (document (initial_page example_doc)))"
    by blast
  then have "map_option headings (component (run ?m ?evs)) =
     Some [\<lparr>item_id = ''section-2'', item_text = ''Setup'', level = Num 2\<rparr>,
           \<lparr>item_id = ''section-3'', item_text = ''Details'', level = Num 3\<rparr>]"
    unfolding d by (simp add: example_query example_items)
  with a show ?thesis by simp
qed

end
